theory Spec2Isabelle
  imports Complex_Main
begin

section \<open>The repository data loader of impactlib (\<open>impactlib/load.py\<close>)\<close>

text \<open>
  The module holds one global, \<open>cached_data\<close>, and one function, \<open>load_repo_data\<close>.
  The function reads the list of repository URLs from the configuration, fetches every
  URL with \<open>urllib2\<close>, decodes every body with \<open>json.loads\<close> and merges the decoded
  documents with \<open>dict.update\<close>. The configuration, the HTTP transport and the JSON
  decoder are collaborators of the module: they are parameters of the model. The
  dictionary and its \<open>update\<close> method are part of the language and are modelled here.
\<close>

subsection \<open>Decoded JSON values\<close>

text \<open>
  What \<open>json.loads\<close> can return. An object is the list of the items of the decoded
  dictionary in its iteration order. A string is the list of its characters. Floats are
  given by their exact value; the non-finite floats are not represented.
\<close>

datatype json =
    JNull
  | JBool bool
  | JInt int
  | JFloat rat
  | JStr string
  | JArr "json list"
  | JObj "(string \<times> json) list"

text \<open>
  Dictionary keys up to Python's key equality, under which \<open>True\<close>, \<open>1\<close> and \<open>1.0\<close> are
  one key.
\<close>

datatype key = KNone | KNum rat | KStr string

type_synonym dict = "key \<rightharpoonup> json"

datatype error = TransportError | ParseError | TypeError | ValueError

text \<open>Hashing a value that is to become a key; lists and dictionaries are unhashable.\<close>

fun hash_key :: "json \<Rightarrow> key option" where
  "hash_key JNull = Some KNone"
| "hash_key (JBool b) = Some (KNum (if b then 1 else 0))"
| "hash_key (JInt i) = Some (KNum (of_int i))"
| "hash_key (JFloat r) = Some (KNum r)"
| "hash_key (JStr s) = Some (KStr s)"
| "hash_key (JArr xs) = None"
| "hash_key (JObj kvs) = None"

text \<open>
  Iterating a value: a list gives its elements, a string its characters, a dictionary
  its keys; the other values are not iterable.
\<close>

fun as_sequence :: "json \<Rightarrow> json list option" where
  "as_sequence (JArr xs) = Some xs"
| "as_sequence (JStr s) = Some (map (\<lambda>c. JStr [c]) s)"
| "as_sequence (JObj kvs) = Some (map (\<lambda>(k, v). JStr k) kvs)"
| "as_sequence JNull = None"
| "as_sequence (JBool b) = None"
| "as_sequence (JInt i) = None"
| "as_sequence (JFloat r) = None"

text \<open>
  \<open>dict.update\<close> with an argument that has no \<open>keys\<close> method takes it for a sequence
  of pairs: every element must itself be a sequence (TypeError otherwise) of length
  two (ValueError otherwise) whose first component is hashable (TypeError otherwise).
\<close>

fun merge_from_seq2 :: "dict \<Rightarrow> json list \<Rightarrow> error + dict" where
  "merge_from_seq2 d [] = Inr d"
| "merge_from_seq2 d (item # items) =
     (case as_sequence item of
        None \<Rightarrow> Inl TypeError
      | Some fast \<Rightarrow>
          (case fast of
             [k, v] \<Rightarrow>
               (case hash_key k of
                  None \<Rightarrow> Inl TypeError
                | Some h \<Rightarrow> merge_from_seq2 (d(h \<mapsto> v)) items)
           | _ \<Rightarrow> Inl ValueError))"

text \<open>
  \<open>ret.update(data)\<close>: a dictionary is merged item by item, a later assignment
  overwriting an earlier one; any other value goes through the sequence protocol.
\<close>

fun dict_update :: "dict \<Rightarrow> json \<Rightarrow> error + dict" where
  "dict_update d (JObj kvs) = Inr (foldl (\<lambda>m (k, v). m(KStr k \<mapsto> v)) d kvs)"
| "dict_update d data =
     (case as_sequence data of
        None \<Rightarrow> Inl TypeError
      | Some items \<Rightarrow> merge_from_seq2 d items)"

subsection \<open>Collaborators and effects\<close>

type_synonym url = string

text \<open>
  A response of the transport: \<open>read\<close> is what \<open>response.read()\<close> returns, \<open>None\<close> when
  reading raises.
\<close>

datatype response = Response (read: "string option")

text \<open>
  The collaborators as one call of \<open>load_repo_data\<close> finds them: the URL list of
  \<open>config.get_repos()\<close>, \<open>urllib2.urlopen\<close> (\<open>None\<close> when the request raises) and
  \<open>json.loads\<close> (\<open>None\<close> when the body is rejected). During one call a URL answers in
  one way; from one call to the next the environment may change. The exceptions are
  told apart by the call that raises them: TransportError is what \<open>urlopen\<close> or \<open>read\<close>
  raises, ParseError what \<open>json.loads\<close> raises, TypeError and ValueError what
  \<open>dict.update\<close> raises.
\<close>

record env =
  get_repos :: "url list"
  urlopen :: "url \<Rightarrow> response option"
  json_loads :: "string \<Rightarrow> json option"

text \<open>
  The calls on the collaborators and the writes of the global, in the order in which
  they happen. \<open>Close\<close> is \<open>response.close()\<close>.
\<close>

datatype event = Get_repos | Urlopen url | Read url | Close url | Store

text \<open>
  What one call leaves behind: the value returned or the exception raised, the value of
  \<open>cached_data\<close> after the call, and the effects of the call.
\<close>

record outcome =
  returned :: "error + dict"
  cache :: "dict option"
  io :: "event list"

subsection \<open>The loader\<close>

text \<open>The body of the loop, lines 23 to 26, for one URL and the accumulator \<open>ret\<close>.\<close>

definition fetch_merge :: "env \<Rightarrow> dict \<Rightarrow> url \<Rightarrow> (error + dict) \<times> event list" where
  "fetch_merge E ret u =
     (case urlopen E u of
        None \<Rightarrow> (Inl TransportError, [Urlopen u])
      | Some resp \<Rightarrow>
          (case read resp of
             None \<Rightarrow> (Inl TransportError, [Urlopen u, Read u])
           | Some body \<Rightarrow>
               (case json_loads E body of
                  None \<Rightarrow> (Inl ParseError, [Urlopen u, Read u])
                | Some data \<Rightarrow> (dict_update ret data, [Urlopen u, Read u]))))"

text \<open>The loop of line 22: the first exception ends it.\<close>

fun for_urls :: "env \<Rightarrow> url list \<Rightarrow> dict \<Rightarrow> (error + dict) \<times> event list" where
  "for_urls E [] ret = (Inr ret, [])"
| "for_urls E (u # urls) ret =
     (case fetch_merge E ret u of
        (Inl e, evs) \<Rightarrow> (Inl e, evs)
      | (Inr ret', evs) \<Rightarrow>
          (case for_urls E urls ret' of (r, evs') \<Rightarrow> (r, evs @ evs')))"

text \<open>
  \<open>load_repo_data\<close>, with the global \<open>cached_data\<close> passed in and returned. The test
  \<open>cached_data != None\<close> holds for every dictionary, the empty one included.
\<close>

definition load_repo_data :: "env \<Rightarrow> dict option \<Rightarrow> outcome" where
  "load_repo_data E cached_data =
     (case cached_data of
        Some d \<Rightarrow> \<lparr>returned = Inr d, cache = Some d, io = []\<rparr>
      | None \<Rightarrow>
          (case for_urls E (get_repos E) Map.empty of
             (Inl e, evs) \<Rightarrow> \<lparr>returned = Inl e, cache = None, io = Get_repos # evs\<rparr>
           | (Inr ret, evs) \<Rightarrow>
               \<lparr>returned = Inr ret, cache = Some ret, io = Get_repos # evs @ [Store]\<rparr>))"

subsection \<open>A process\<close>

text \<open>Line 6: the module is imported with the cache unpopulated.\<close>

definition initial_cache :: "dict option" where
  "initial_cache = None"

text \<open>
  The calls that one process makes, one after the other, each in the environment it
  finds, the global handed from one call to the next.
\<close>

fun calls :: "env list \<Rightarrow> dict option \<Rightarrow> outcome list" where
  "calls [] c = []"
| "calls (E # Es) c = load_repo_data E c # calls Es (cache (load_repo_data E c))"

subsection \<open>Vocabulary of the specification\<close>

text \<open>
  The mapping that a decoded object stands for: the value of a name is that of its last
  item.
\<close>

definition as_mapping :: "(string \<times> json) list \<Rightarrow> dict" where
  "as_mapping kvs = map_of (rev (map (\<lambda>(k, v). (KStr k, v)) kvs))"

text \<open>
  The merge of the specification: start from the empty mapping and add the documents in
  list order, a later document overwriting an earlier one on a shared key.
\<close>

definition merge_in_order :: "dict list \<Rightarrow> dict" where
  "merge_in_order docs = foldl (++) Map.empty docs"

text \<open>The URL answers, and its body decodes to the object \<open>kvs\<close>.\<close>

definition serves :: "env \<Rightarrow> url \<Rightarrow> (string \<times> json) list \<Rightarrow> bool" where
  "serves E u kvs =
     (case urlopen E u of
        None \<Rightarrow> False
      | Some resp \<Rightarrow>
          (case read resp of
             None \<Rightarrow> False
           | Some body \<Rightarrow> json_loads E body = Some (JObj kvs)))"

text \<open>The GET of the URL fails: the request raises, or reading the response does.\<close>

definition get_fails :: "env \<Rightarrow> url \<Rightarrow> bool" where
  "get_fails E u =
     (case urlopen E u of None \<Rightarrow> True | Some resp \<Rightarrow> read resp = None)"

text \<open>The URL answers with a body that the decoder rejects.\<close>

definition parse_fails :: "env \<Rightarrow> url \<Rightarrow> bool" where
  "parse_fails E u =
     (case urlopen E u of
        None \<Rightarrow> False
      | Some resp \<Rightarrow>
          (case read resp of None \<Rightarrow> False | Some body \<Rightarrow> json_loads E body = None))"

text \<open>The URLs requested by a sequence of effects, in order.\<close>

fun requests :: "event list \<Rightarrow> url list" where
  "requests [] = []"
| "requests (Urlopen u # evs) = u # requests evs"
| "requests (ev # evs) = requests evs"

text \<open>The effects of fetching a URL whose response can be read.\<close>

definition fetched :: "url list \<Rightarrow> event list" where
  "fetched us = concat (map (\<lambda>u. [Urlopen u, Read u]) us)"

subsection \<open>Sample environments\<close>

text \<open>
  A decoder that knows four bodies and rejects every other one, \<open>{not json\<close> among
  them, and the environment that serves a table of bodies.
\<close>

definition sample_loads :: "string \<Rightarrow> json option" where
  \<open>sample_loads =
     [''{"x": 1}'' \<mapsto> JObj [(''x'', JInt 1)],
      ''{"x": 2, "y": 3}'' \<mapsto> JObj [(''x'', JInt 2), (''y'', JInt 3)],
      ''5'' \<mapsto> JInt 5,
      ''"ab"'' \<mapsto> JStr ''ab'']\<close>

definition serving :: "url list \<Rightarrow> (url \<times> string) list \<Rightarrow> env" where
  "serving us table =
     \<lparr>get_repos = us,
      urlopen = (\<lambda>u. map_option (\<lambda>body. Response (Some body)) (map_of table u)),
      json_loads = sample_loads\<rparr>"

definition env_ab :: env where
  \<open>env_ab = serving [''A'', ''B''] [(''A'', ''{"x": 1}''), (''B'', ''{"x": 2, "y": 3}'')]\<close>

definition env_abc :: env where
  \<open>env_abc =
     serving [''A'', ''B''] [(''A'', ''{"x": 1}''), (''B'', ''{"x": 2, "y": 3}''), (''C'', ''5'')]\<close>

definition env_b_down :: env where
  \<open>env_b_down = serving [''A'', ''B''] [(''A'', ''{"x": 1}'')]\<close>

definition env_not_json :: env where
  \<open>env_not_json = serving [''A''] [(''A'', ''{not json'')]\<close>

definition env_number :: env where
  \<open>env_number = serving [''A'', ''B''] [(''A'', ''{"x": 1}''), (''B'', ''5'')]\<close>

definition env_string :: env where
  \<open>env_string = serving [''A''] [(''A'', ''"ab"'')]\<close>

section \<open>Properties\<close>

subsection \<open>The merge, the loop body and the loop\<close>

lemma update_object: "foldl (\<lambda>m (k, v). m(KStr k \<mapsto> v)) d kvs = d ++ as_mapping kvs"
  unfolding as_mapping_def
  by (induction kvs arbitrary: d) (auto simp: map_add_def fun_eq_iff split: option.splits)

lemma fetch_merge_serves:
  "serves E u kvs \<Longrightarrow> fetch_merge E ret u = (Inr (ret ++ as_mapping kvs), fetched [u])"
  by (auto simp: serves_def fetch_merge_def fetched_def update_object split: option.splits)

lemma fetched_Cons: "fetched (u # us) = Urlopen u # Read u # fetched us"
  by (simp add: fetched_def)

lemma fetched_Nil: "fetched [] = []"
  by (simp add: fetched_def)

lemma fetched_append: "fetched (us @ vs) = fetched us @ fetched vs"
  by (simp add: fetched_def)

lemma for_urls_serves:
  "list_all2 (serves E) us docs \<Longrightarrow>
   for_urls E us ret = (Inr (foldl (++) ret (map as_mapping docs)), fetched us)"
  by (induction us docs arbitrary: ret rule: list_all2_induct)
     (simp_all add: fetch_merge_serves fetched_def)

lemma merge_from_seq2_error:
  "merge_from_seq2 d items = Inl e \<Longrightarrow> e = TypeError \<or> e = ValueError"
  by (induction items arbitrary: d) (auto split: option.splits list.splits)

lemma dict_update_error: "dict_update d data = Inl e \<Longrightarrow> e = TypeError \<or> e = ValueError"
  by (cases data) (auto split: option.splits dest: merge_from_seq2_error)

lemma fetch_merge_io:
  "snd (fetch_merge E ret u) = Urlopen u # (if urlopen E u = None then [] else [Read u])"
  by (simp add: fetch_merge_def split: option.splits)

lemma fetch_merge_transport:
  "fst (fetch_merge E ret u) = Inl TransportError \<longleftrightarrow> get_fails E u"
  by (auto simp: fetch_merge_def get_fails_def split: option.splits dest: dict_update_error)

lemma fetch_merge_parse:
  "fst (fetch_merge E ret u) = Inl ParseError \<longleftrightarrow> parse_fails E u"
  by (auto simp: fetch_merge_def parse_fails_def split: option.splits dest: dict_update_error)

lemma fetch_merge_ok_io:
  "fst (fetch_merge E ret u) = Inr d \<Longrightarrow> snd (fetch_merge E ret u) = [Urlopen u, Read u]"
  by (auto simp: fetch_merge_def split: option.splits)

lemma for_urls_Cons_err:
  "fst (fetch_merge E ret u) = Inl e \<Longrightarrow> for_urls E (u # us) ret = fetch_merge E ret u"
  by (cases "fetch_merge E ret u") simp

lemma for_urls_Cons_ok:
  "fst (fetch_merge E ret u) = Inr ret' \<Longrightarrow>
   for_urls E (u # us) ret =
     (fst (for_urls E us ret'), Urlopen u # Read u # snd (for_urls E us ret'))"
  using fetch_merge_ok_io [of E ret u ret']
  by (cases "fetch_merge E ret u") (simp split: prod.splits)

declare for_urls.simps(2) [simp del]

lemma for_urls_append_ok:
  "fst (for_urls E pre ret) = Inr acc \<Longrightarrow>
   for_urls E (pre @ us) ret =
     (fst (for_urls E us acc), snd (for_urls E pre ret) @ snd (for_urls E us acc))"
proof (induction pre arbitrary: ret)
  case Nil
  then show ?case by simp
next
  case (Cons u pre)
  show ?case
  proof (cases "fst (fetch_merge E ret u)")
    case (Inl e)
    with Cons.prems show ?thesis by (simp add: for_urls_Cons_err)
  next
    case (Inr ret')
    with Cons.prems have "fst (for_urls E pre ret') = Inr acc"
      by (simp add: for_urls_Cons_ok)
    from Cons.IH [OF this] Inr show ?thesis
      by (simp add: for_urls_Cons_ok)
  qed
qed

lemma for_urls_ok_io:
  "fst (for_urls E us ret) = Inr d \<Longrightarrow> snd (for_urls E us ret) = fetched us"
proof (induction us arbitrary: ret)
  case Nil
  then show ?case by (simp add: fetched_Nil)
next
  case (Cons u us)
  show ?case
  proof (cases "fst (fetch_merge E ret u)")
    case (Inl e)
    with Cons.prems show ?thesis by (simp add: for_urls_Cons_err)
  next
    case (Inr ret')
    with Cons.prems have "fst (for_urls E us ret') = Inr d"
      by (simp add: for_urls_Cons_ok)
    from Cons.IH [OF this] Inr show ?thesis
      by (simp add: for_urls_Cons_ok fetched_Cons)
  qed
qed

lemma for_urls_stops:
  "fst (for_urls E us ret) = Inl e \<Longrightarrow>
   \<exists>i acc. i < length us \<and> fst (for_urls E (take i us) ret) = Inr acc
     \<and> fst (fetch_merge E acc (us ! i)) = Inl e
     \<and> snd (for_urls E us ret) = fetched (take i us) @ snd (fetch_merge E acc (us ! i))"
proof (induction us arbitrary: ret)
  case Nil
  then show ?case by simp
next
  case (Cons u us)
  show ?case
  proof (cases "fst (fetch_merge E ret u)")
    case (Inl e')
    with Cons.prems have "0 < length (u # us) \<and> fst (for_urls E (take 0 (u # us)) ret) = Inr ret
        \<and> fst (fetch_merge E ret ((u # us) ! 0)) = Inl e
        \<and> snd (for_urls E (u # us) ret)
            = fetched (take 0 (u # us)) @ snd (fetch_merge E ret ((u # us) ! 0))"
      by (simp add: fetched_Nil for_urls_Cons_err)
    then show ?thesis by blast
  next
    case (Inr ret')
    with Cons.prems have "fst (for_urls E us ret') = Inl e"
      by (simp add: for_urls_Cons_ok)
    from Cons.IH [OF this] obtain i acc where i: "i < length us"
      and pre: "fst (for_urls E (take i us) ret') = Inr acc"
      and err: "fst (fetch_merge E acc (us ! i)) = Inl e"
      and tr: "snd (for_urls E us ret') = fetched (take i us) @ snd (fetch_merge E acc (us ! i))"
      by blast
    have "Suc i < length (u # us) \<and> fst (for_urls E (take (Suc i) (u # us)) ret) = Inr acc
        \<and> fst (fetch_merge E acc ((u # us) ! Suc i)) = Inl e
        \<and> snd (for_urls E (u # us) ret)
            = fetched (take (Suc i) (u # us)) @ snd (fetch_merge E acc ((u # us) ! Suc i))"
      using i pre err tr Inr by (simp add: fetched_Cons for_urls_Cons_ok)
    then show ?thesis by blast
  qed
qed

lemma for_urls_events:
  "set (snd (for_urls E us ret)) \<subseteq> Urlopen ` set us \<union> Read ` set us"
proof (induction us arbitrary: ret)
  case Nil
  then show ?case by simp
next
  case (Cons u us)
  show ?case
  proof (cases "fst (fetch_merge E ret u)")
    case (Inl e)
    then show ?thesis by (auto simp: for_urls_Cons_err fetch_merge_io)
  next
    case (Inr ret')
    with Cons.IH [of ret'] show ?thesis by (auto simp: for_urls_Cons_ok)
  qed
qed

subsection \<open>The call\<close>

lemma requests_append: "requests (xs @ ys) = requests xs @ requests ys"
  by (induction xs rule: requests.induct) simp_all

lemma requests_fetched: "requests (fetched us) = us"
  by (induction us) (simp_all add: fetched_Cons fetched_Nil)

lemma requests_fetch_merge: "requests (snd (fetch_merge E ret u)) = [u]"
  by (simp add: fetch_merge_io)

lemma load_hit:
  "load_repo_data E (Some d) = \<lparr>returned = Inr d, cache = Some d, io = []\<rparr>"
  by (simp add: load_repo_data_def)

lemma load_miss_ok:
  "fst (for_urls E (get_repos E) Map.empty) = Inr d \<Longrightarrow>
   load_repo_data E None =
     \<lparr>returned = Inr d, cache = Some d, io = Get_repos # fetched (get_repos E) @ [Store]\<rparr>"
  using for_urls_ok_io [of E "get_repos E" Map.empty d]
  by (cases "for_urls E (get_repos E) Map.empty") (simp add: load_repo_data_def)

lemma load_miss_err:
  "fst (for_urls E (get_repos E) Map.empty) = Inl e \<Longrightarrow>
   load_repo_data E None =
     \<lparr>returned = Inl e, cache = None, io = Get_repos # snd (for_urls E (get_repos E) Map.empty)\<rparr>"
  by (cases "for_urls E (get_repos E) Map.empty") (simp add: load_repo_data_def)

lemma calls_hit:
  "calls Es (Some d) = replicate (length Es) \<lparr>returned = Inr d, cache = Some d, io = []\<rparr>"
  by (induction Es) (simp_all add: load_hit)

lemma fetch_merge_fails:
  "get_fails E u \<or> parse_fails E u \<Longrightarrow>
   fst (fetch_merge E ret u) = Inl (if get_fails E u then TransportError else ParseError)"
  using fetch_merge_transport [of E ret u] fetch_merge_parse [of E ret u] by auto

lemmas sample_defs = serving_def sample_loads_def serves_def get_fails_def parse_fails_def
  load_repo_data_def for_urls.simps(2) fetch_merge_def fetched_def

lemma for_urls_transport:
  "fst (for_urls E us ret) = Inl TransportError
     \<longleftrightarrow> (\<exists>u. Urlopen u \<in> set (snd (for_urls E us ret)) \<and> get_fails E u)"
proof (induction us arbitrary: ret)
  case Nil
  then show ?case by simp
next
  case (Cons u us)
  show ?case
  proof (cases "fst (fetch_merge E ret u)")
    case (Inl e)
    have "e = TransportError \<longleftrightarrow> get_fails E u"
      using fetch_merge_transport [of E ret u] Inl by simp
    then show ?thesis
      using Inl by (auto simp: for_urls_Cons_err fetch_merge_io split: if_splits)
  next
    case (Inr ret')
    have "\<not> get_fails E u"
      using fetch_merge_transport [of E ret u] Inr by simp
    then show ?thesis
      using Inr Cons.IH [of ret'] by (auto simp: for_urls_Cons_ok)
  qed
qed

lemma parse_fails_answers: "parse_fails E u \<Longrightarrow> urlopen E u \<noteq> None"
  by (auto simp: parse_fails_def split: option.splits)

lemma for_urls_parse:
  "fst (for_urls E us ret) = Inl ParseError
     \<longleftrightarrow> (\<exists>u. Read u \<in> set (snd (for_urls E us ret)) \<and> parse_fails E u)"
proof (induction us arbitrary: ret)
  case Nil
  then show ?case by simp
next
  case (Cons u us)
  show ?case
  proof (cases "fst (fetch_merge E ret u)")
    case (Inl e)
    have "e = ParseError \<longleftrightarrow> parse_fails E u"
      using fetch_merge_parse [of E ret u] Inl by simp
    then show ?thesis
      using Inl parse_fails_answers [of E u]
      by (auto simp: for_urls_Cons_err fetch_merge_io split: if_splits)
  next
    case (Inr ret')
    have "\<not> parse_fails E u"
      using fetch_merge_parse [of E ret u] Inr by simp
    then show ?thesis
      using Inr Cons.IH [of ret'] by (auto simp: for_urls_Cons_ok)
  qed
qed

lemma for_urls_requests:
  "\<exists>n\<le>length us. requests (snd (for_urls E us ret)) = take n us"
proof (cases "fst (for_urls E us ret)")
  case (Inl e)
  from for_urls_stops [OF this] obtain i acc where "i < length us"
    and "snd (for_urls E us ret) = fetched (take i us) @ snd (fetch_merge E acc (us ! i))"
    by blast
  then have "Suc i \<le> length us \<and> requests (snd (for_urls E us ret)) = take (Suc i) us"
    by (simp add: requests_append requests_fetched requests_fetch_merge take_Suc_conv_app_nth)
  then show ?thesis by blast
next
  case (Inr d)
  then have "requests (snd (for_urls E us ret)) = take (length us) us"
    by (simp add: for_urls_ok_io requests_fetched)
  then show ?thesis by blast
qed

lemma load_io:
  "io (load_repo_data E None)
     = Get_repos # snd (for_urls E (get_repos E) Map.empty)
       @ (case fst (for_urls E (get_repos E) Map.empty) of Inl e \<Rightarrow> [] | Inr d \<Rightarrow> [Store])"
  by (cases "for_urls E (get_repos E) Map.empty")
     (simp add: load_repo_data_def split: sum.splits)

lemma load_returned:
  "returned (load_repo_data E None) = fst (for_urls E (get_repos E) Map.empty)"
  by (cases "for_urls E (get_repos E) Map.empty")
     (simp add: load_repo_data_def split: sum.splits)

lemma load_cache:
  "cache (load_repo_data E None)
     = (case fst (for_urls E (get_repos E) Map.empty) of Inl e \<Rightarrow> None | Inr d \<Rightarrow> Some d)"
  by (cases "for_urls E (get_repos E) Map.empty")
     (simp add: load_repo_data_def split: sum.splits)

lemma load_env_ab:
  "load_repo_data env_ab None =
     \<lparr>returned = Inr [KStr ''x'' \<mapsto> JInt 2, KStr ''y'' \<mapsto> JInt 3],
      cache = Some [KStr ''x'' \<mapsto> JInt 2, KStr ''y'' \<mapsto> JInt 3],
      io = [Get_repos, Urlopen ''A'', Read ''A'', Urlopen ''B'', Read ''B'', Store]\<rparr>"
  by (simp add: env_ab_def sample_defs)

lemma load_env_b_down:
  "load_repo_data env_b_down None =
     \<lparr>returned = Inl TransportError, cache = None,
      io = [Get_repos, Urlopen ''A'', Read ''A'', Urlopen ''B'']\<rparr>"
  by (simp add: env_b_down_def sample_defs)

lemma load_env_not_json:
  "load_repo_data env_not_json None =
     \<lparr>returned = Inl ParseError, cache = None, io = [Get_repos, Urlopen ''A'', Read ''A'']\<rparr>"
  by (simp add: env_not_json_def sample_defs)

lemma load_env_number:
  "load_repo_data env_number None =
     \<lparr>returned = Inl TypeError, cache = None,
      io = [Get_repos, Urlopen ''A'', Read ''A'', Urlopen ''B'', Read ''B'']\<rparr>"
  by (simp add: env_number_def sample_defs)

lemma load_env_string:
  "load_repo_data env_string None =
     \<lparr>returned = Inl ValueError, cache = None, io = [Get_repos, Urlopen ''A'', Read ''A'']\<rparr>"
  by (simp add: env_string_def sample_defs)

lemma load_miss_cases:
  "(\<exists>e evs. load_repo_data E None = \<lparr>returned = Inl e, cache = None, io = evs\<rparr>
       \<and> Store \<notin> set evs)
   \<or> (\<exists>d evs. load_repo_data E None = \<lparr>returned = Inr d, cache = Some d, io = evs @ [Store]\<rparr>
       \<and> Store \<notin> set evs)"
proof (cases "fst (for_urls E (get_repos E) Map.empty)")
  case (Inl e)
  have "Store \<notin> set (Get_repos # snd (for_urls E (get_repos E) Map.empty))"
    using for_urls_events [of E "get_repos E" Map.empty] by auto
  with load_miss_err [OF Inl] show ?thesis by blast
next
  case (Inr d)
  have "Store \<notin> set (Get_repos # fetched (get_repos E))"
    using for_urls_events [of E "get_repos E" Map.empty] for_urls_ok_io [OF Inr] by auto
  with load_miss_ok [OF Inr] show ?thesis
    by (metis append_Cons)
qed

lemma fetch_merge_raises:
  "get_fails E u \<or> parse_fails E u \<Longrightarrow> \<exists>e. fst (fetch_merge E ret u) = Inl e"
  using fetch_merge_fails [of E u ret] by blast

lemma for_urls_halts_by:
  "i < length us \<Longrightarrow> get_fails E (us ! i) \<or> parse_fails E (us ! i) \<Longrightarrow>
   length (requests (snd (for_urls E us ret))) \<le> Suc i"
proof (induction us arbitrary: i ret)
  case Nil
  then show ?case by simp
next
  case (Cons u us)
  show ?case
  proof (cases "fst (fetch_merge E ret u)")
    case (Inl e)
    then show ?thesis
      by (simp add: for_urls_Cons_err requests_fetch_merge)
  next
    case (Inr ret')
    with fetch_merge_raises [of E u ret] have ok: "\<not> (get_fails E u \<or> parse_fails E u)"
      by auto
    with Cons.prems obtain j where j: "i = Suc j"
      by (cases i) auto
    with Cons.prems have "j < length us" and "get_fails E (us ! j) \<or> parse_fails E (us ! j)"
      by simp_all
    from Cons.IH [OF this, of ret'] Inr j show ?thesis
      by (simp add: for_urls_Cons_ok)
  qed
qed

lemma fetch_merge_agree:
  assumes answer: "urlopen E1 u = urlopen E2 u"
      and decoder: "json_loads E1 = json_loads E2"
  shows "fetch_merge E1 ret u = fetch_merge E2 ret u"
  unfolding fetch_merge_def answer decoder by (rule refl)

lemma for_urls_agree:
  assumes decoder: "json_loads E1 = json_loads E2"
  shows "\<forall>u\<in>set us. urlopen E1 u = urlopen E2 u \<Longrightarrow> for_urls E1 us ret = for_urls E2 us ret"
proof (induction us arbitrary: ret)
  case Nil
  show ?case by simp
next
  case (Cons u us)
  from Cons.prems have "urlopen E1 u = urlopen E2 u"
    by simp
  then have step: "fetch_merge E1 ret u = fetch_merge E2 ret u"
    using decoder by (rule fetch_merge_agree)
  from Cons.prems have "\<forall>v\<in>set us. urlopen E1 v = urlopen E2 v"
    by simp
  then have rest: "\<And>ret'. for_urls E1 us ret' = for_urls E2 us ret'"
    by (rule Cons.IH)
  show ?case
    unfolding for_urls.simps(2) step rest by (rule refl)
qed

lemma fetch_merge_decoded:
  "urlopen E u = Some resp \<Longrightarrow> read resp = Some body \<Longrightarrow> json_loads E body = Some data \<Longrightarrow>
   fetch_merge E ret u = (dict_update ret data, [Urlopen u, Read u])"
  by (simp add: fetch_merge_def)

subsection \<open>The claims\<close>

text \<open>
  C1. When every URL of the list answers and every body decodes to an object, a call with
  the cache unpopulated returns the mapping built from the empty mapping by merging the
  documents in list order, a later document overwriting an earlier one on a shared key.
  For the URLs \<open>A\<close> and \<open>B\<close> that answer \<open>{"x": 1}\<close> and \<open>{"x": 2, "y": 3}\<close> the call
  returns \<open>{"x": 2, "y": 3}\<close>.
\<close>

theorem merge_all:
  assumes "list_all2 (serves E) (get_repos E) docs"
  shows "returned (load_repo_data E None) = Inr (merge_in_order (map as_mapping docs))"
  using for_urls_serves [OF assms, of Map.empty]
  by (simp add: load_repo_data_def merge_in_order_def)

theorem merge_all_witness:
  "list_all2 (serves env_ab) (get_repos env_ab)
     [[(''x'', JInt 1)], [(''x'', JInt 2), (''y'', JInt 3)]]
   \<and> returned (load_repo_data env_ab None) = Inr [KStr ''x'' \<mapsto> JInt 2, KStr ''y'' \<mapsto> JInt 3]"
proof -
  have served: "list_all2 (serves env_ab) (get_repos env_ab)
      [[(''x'', JInt 1)], [(''x'', JInt 2), (''y'', JInt 3)]]"
    by (simp add: env_ab_def serving_def sample_loads_def serves_def)
  have merged: "merge_in_order (map as_mapping [[(''x'', JInt 1)], [(''x'', JInt 2), (''y'', JInt 3)]])
      = [KStr ''x'' \<mapsto> JInt 2, KStr ''y'' \<mapsto> JInt 3]"
    by (auto simp: merge_in_order_def as_mapping_def map_add_def fun_eq_iff)
  show ?thesis using served merge_all [OF served] merged by simp
qed

text \<open>
  C2. Once \<open>cached_data\<close> holds a mapping, a call returns that mapping and leaves it in
  place, whatever the configuration, the network and the decoder are: the call has no
  effect at all, so it neither reads the configuration nor issues a request nor writes
  the global. The same holds for every further call of the process.
\<close>

theorem cache_hit:
  "load_repo_data E (Some d) = \<lparr>returned = Inr d, cache = Some d, io = []\<rparr>
   \<and> calls Es (Some d) = replicate (length Es) \<lparr>returned = Inr d, cache = Some d, io = []\<rparr>"
  by (simp add: load_hit calls_hit)

text \<open>
  C3. When the URLs before \<open>u\<close> have been fetched and merged and the GET of \<open>u\<close> fails or
  its body does not decode, the call raises that error (TransportError for the GET,
  ParseError for the body), the cache stays unpopulated and nothing of what was merged
  is returned or kept; the requests of the call stop at \<open>u\<close>. The next call, in any
  environment, is a call with the cache unpopulated: it runs the whole cycle again.
\<close>

theorem failure_aborts:
  assumes urls: "get_repos E = pre @ u # post"
      and merged: "fst (for_urls E pre Map.empty) = Inr acc"
      and fails: "get_fails E u \<or> parse_fails E u"
  shows "returned (load_repo_data E None)
           = Inl (if get_fails E u then TransportError else ParseError)
       \<and> cache (load_repo_data E None) = None
       \<and> requests (io (load_repo_data E None)) = pre @ [u]
       \<and> (\<forall>E'. load_repo_data E' (cache (load_repo_data E None)) = load_repo_data E' None)"
proof -
  let ?e = "if get_fails E u then TransportError else ParseError"
  have step: "fst (fetch_merge E acc u) = Inl ?e"
    using fails by (rule fetch_merge_fails)
  have loop: "for_urls E (get_repos E) Map.empty
      = (Inl ?e, snd (for_urls E pre Map.empty) @ snd (fetch_merge E acc u))"
    using step by (simp add: urls for_urls_append_ok [OF merged] for_urls_Cons_err [OF step])
  have pre: "snd (for_urls E pre Map.empty) = fetched pre"
    using merged by (rule for_urls_ok_io)
  have out: "load_repo_data E None
      = \<lparr>returned = Inl ?e, cache = None,
         io = Get_repos # fetched pre @ snd (fetch_merge E acc u)\<rparr>"
    using load_miss_err [of E ?e] loop pre by simp
  show ?thesis
    by (simp add: out requests_append requests_fetched requests_fetch_merge)
qed

theorem failure_aborts_witness:
  "get_repos env_b_down = [''A''] @ ''B'' # []
   \<and> fst (for_urls env_b_down [''A''] Map.empty) = Inr [KStr ''x'' \<mapsto> JInt 1]
   \<and> get_fails env_b_down ''B''
   \<and> returned (load_repo_data env_b_down None) = Inl TransportError
   \<and> cache (load_repo_data env_b_down None) = None
   \<and> requests (io (load_repo_data env_b_down (cache (load_repo_data env_b_down None))))
       = [''A'', ''B'']"
proof -
  have urls: "get_repos env_b_down = [''A''] @ ''B'' # []"
    by (simp add: env_b_down_def serving_def)
  have merged: "fst (for_urls env_b_down [''A''] Map.empty) = Inr [KStr ''x'' \<mapsto> JInt 1]"
    by (simp add: env_b_down_def sample_defs)
  have fails: "get_fails env_b_down ''B''"
    by (simp add: env_b_down_def sample_defs)
  from fails have fails': "get_fails env_b_down ''B'' \<or> parse_fails env_b_down ''B''" ..
  show ?thesis
    using urls merged fails failure_aborts [OF urls merged fails'] by simp
qed

text \<open>
  C4. When the configuration gives no URL, a call with the cache unpopulated returns the
  empty mapping and stores it, issuing no request; every later call, in any
  environment, returns the same empty mapping with no effect.
\<close>

theorem empty_url_list:
  assumes "get_repos E = []"
  shows "load_repo_data E None
           = \<lparr>returned = Inr Map.empty, cache = Some Map.empty, io = [Get_repos, Store]\<rparr>
       \<and> (\<forall>E'. load_repo_data E' (cache (load_repo_data E None))
                 = \<lparr>returned = Inr Map.empty, cache = Some Map.empty, io = []\<rparr>)"
  using assms by (simp add: load_repo_data_def)

theorem empty_url_list_witness:
  "get_repos (serving [] []) = []
   \<and> returned (load_repo_data (serving [] []) None) = Inr Map.empty
   \<and> load_repo_data env_ab (cache (load_repo_data (serving [] []) None))
       = \<lparr>returned = Inr Map.empty, cache = Some Map.empty, io = []\<rparr>"
proof -
  have none: "get_repos (serving [] []) = []"
    by (simp add: serving_def)
  from empty_url_list [OF none]
  have first: "load_repo_data (serving [] []) None
      = \<lparr>returned = Inr Map.empty, cache = Some Map.empty, io = [Get_repos, Store]\<rparr>"
    and later: "load_repo_data env_ab (cache (load_repo_data (serving [] []) None))
      = \<lparr>returned = Inr Map.empty, cache = Some Map.empty, io = []\<rparr>"
    by blast+
  show ?thesis using none first later by simp
qed

text \<open>
  C5. A call raises TransportError exactly when a GET that it issued failed, and
  ParseError exactly when a body that it read is rejected by the decoder. Whenever a
  call raises, the cache is left unpopulated and no mapping is returned, and the
  requests issued are the first URLs of the list, each requested once: nothing is
  retried. The body \<open>{not json\<close> makes the call raise ParseError.
\<close>

theorem error_kinds:
  "(returned (load_repo_data E c) = Inl TransportError
      \<longleftrightarrow> (\<exists>u. Urlopen u \<in> set (io (load_repo_data E c)) \<and> get_fails E u))
   \<and> (returned (load_repo_data E c) = Inl ParseError
      \<longleftrightarrow> (\<exists>u. Read u \<in> set (io (load_repo_data E c)) \<and> parse_fails E u))
   \<and> (\<forall>e. returned (load_repo_data E c) = Inl e \<longrightarrow>
        cache (load_repo_data E c) = None
        \<and> (\<exists>n\<le>length (get_repos E). requests (io (load_repo_data E c)) = take n (get_repos E)))"
proof (cases c)
  case (Some d)
  then show ?thesis by (simp add: load_hit)
next
  case None
  let ?loop = "for_urls E (get_repos E) Map.empty"
  have members: "\<And>ev. ev \<noteq> Get_repos \<Longrightarrow> ev \<noteq> Store \<Longrightarrow>
      ev \<in> set (io (load_repo_data E None)) \<longleftrightarrow> ev \<in> set (snd ?loop)"
    by (auto simp: load_io split: sum.splits)
  have transport: "returned (load_repo_data E None) = Inl TransportError
      \<longleftrightarrow> (\<exists>u. Urlopen u \<in> set (io (load_repo_data E None)) \<and> get_fails E u)"
    by (simp add: load_returned for_urls_transport members)
  have parse: "returned (load_repo_data E None) = Inl ParseError
      \<longleftrightarrow> (\<exists>u. Read u \<in> set (io (load_repo_data E None)) \<and> parse_fails E u)"
    by (simp add: load_returned for_urls_parse members)
  have aborted: "\<forall>e. returned (load_repo_data E None) = Inl e \<longrightarrow>
        cache (load_repo_data E None) = None
        \<and> (\<exists>n\<le>length (get_repos E). requests (io (load_repo_data E None)) = take n (get_repos E))"
    using for_urls_requests [of "get_repos E" E Map.empty]
    by (auto simp: load_returned load_cache load_io requests_append)
  from transport parse aborted show ?thesis
    unfolding None by blast
qed

theorem error_kinds_witness:
  "Urlopen ''B'' \<in> set (io (load_repo_data env_b_down None)) \<and> get_fails env_b_down ''B''
   \<and> returned (load_repo_data env_b_down None) = Inl TransportError
   \<and> Read ''A'' \<in> set (io (load_repo_data env_not_json None)) \<and> parse_fails env_not_json ''A''
   \<and> returned (load_repo_data env_not_json None) = Inl ParseError
   \<and> cache (load_repo_data env_not_json None) = None"
proof -
  have down: "Urlopen ''B'' \<in> set (io (load_repo_data env_b_down None))"
    "get_fails env_b_down ''B''"
    by (simp_all add: env_b_down_def sample_defs)
  have bad: "Read ''A'' \<in> set (io (load_repo_data env_not_json None))"
    "parse_fails env_not_json ''A''"
    by (simp_all add: env_not_json_def sample_defs)
  from down error_kinds [of env_b_down None]
  have transport: "returned (load_repo_data env_b_down None) = Inl TransportError"
    by blast
  from bad error_kinds [of env_not_json None]
  have parse: "returned (load_repo_data env_not_json None) = Inl ParseError"
    by blast
  with error_kinds [of env_not_json None]
  have "cache (load_repo_data env_not_json None) = None"
    by blast
  with down bad transport parse show ?thesis by simp
qed

text \<open>
  C6. The cache starts unpopulated. In every sequence of calls of one process, a first
  part of the calls raise and leave the cache unpopulated without writing it; the call
  after them, if there is one, completes the cycle, writes the cache once and returns
  what it wrote; every call after that returns the same mapping, finds it in the cache
  and has no effect, so the cache is never written again.
\<close>

theorem populated_once:
  "\<exists>fs ss. calls Es initial_cache = fs @ ss
     \<and> (\<forall>r\<in>set fs. (\<exists>e. returned r = Inl e) \<and> cache r = None \<and> Store \<notin> set (io r))
     \<and> (ss = [] \<or> (\<exists>d evs. Store \<notin> set evs
           \<and> ss = \<lparr>returned = Inr d, cache = Some d, io = evs @ [Store]\<rparr>
                  # replicate (length ss - 1) \<lparr>returned = Inr d, cache = Some d, io = []\<rparr>))"
  unfolding initial_cache_def
proof (induction Es)
  case Nil
  then show ?case by simp
next
  case (Cons E Es)
  from load_miss_cases [of E] show ?case
  proof (elim disjE exE conjE)
    fix e evs
    assume out: "load_repo_data E None = \<lparr>returned = Inl e, cache = None, io = evs\<rparr>"
      and quiet: "Store \<notin> set evs"
    from Cons.IH obtain fs ss where rest: "calls Es None = fs @ ss"
      and failed: "\<forall>r\<in>set fs. (\<exists>e. returned r = Inl e) \<and> cache r = None \<and> Store \<notin> set (io r)"
      and hits: "ss = [] \<or> (\<exists>d evs. Store \<notin> set evs
           \<and> ss = \<lparr>returned = Inr d, cache = Some d, io = evs @ [Store]\<rparr>
                  # replicate (length ss - 1) \<lparr>returned = Inr d, cache = Some d, io = []\<rparr>)"
      by blast
    let ?r = "\<lparr>returned = Inl e, cache = None, io = evs\<rparr>"
    have "calls (E # Es) None = (?r # fs) @ ss"
      by (simp add: out rest)
    moreover have "\<forall>r\<in>set (?r # fs).
        (\<exists>e. returned r = Inl e) \<and> cache r = None \<and> Store \<notin> set (io r)"
      using failed quiet by simp
    ultimately show ?thesis using hits by blast
  next
    fix d evs
    assume out: "load_repo_data E None = \<lparr>returned = Inr d, cache = Some d, io = evs @ [Store]\<rparr>"
      and quiet: "Store \<notin> set evs"
    let ?ss = "calls (E # Es) None"
    have "?ss = \<lparr>returned = Inr d, cache = Some d, io = evs @ [Store]\<rparr>
                  # replicate (length ?ss - 1) \<lparr>returned = Inr d, cache = Some d, io = []\<rparr>"
      by (simp add: out calls_hit)
    with quiet have "calls (E # Es) None = [] @ ?ss
      \<and> (\<forall>r\<in>set []. (\<exists>e. returned r = Inl e) \<and> cache r = None \<and> Store \<notin> set (io r))
      \<and> (?ss = [] \<or> (\<exists>d evs. Store \<notin> set evs
           \<and> ?ss = \<lparr>returned = Inr d, cache = Some d, io = evs @ [Store]\<rparr>
                  # replicate (length ?ss - 1) \<lparr>returned = Inr d, cache = Some d, io = []\<rparr>))"
      by auto
    then show ?thesis by blast
  qed
qed

theorem populated_once_witness:
  "map cache (calls [env_b_down, env_ab, env_not_json] initial_cache)
     = [None, Some [KStr ''x'' \<mapsto> JInt 2, KStr ''y'' \<mapsto> JInt 3],
        Some [KStr ''x'' \<mapsto> JInt 2, KStr ''y'' \<mapsto> JInt 3]]
   \<and> (\<exists>fs ss. calls [env_b_down, env_ab, env_not_json] initial_cache = fs @ ss
       \<and> fs \<noteq> [] \<and> ss \<noteq> []
       \<and> (\<forall>r\<in>set fs. (\<exists>e. returned r = Inl e) \<and> cache r = None \<and> Store \<notin> set (io r))
       \<and> (\<exists>d evs. Store \<notin> set evs
           \<and> ss = \<lparr>returned = Inr d, cache = Some d, io = evs @ [Store]\<rparr>
                  # replicate (length ss - 1) \<lparr>returned = Inr d, cache = Some d, io = []\<rparr>))"
proof -
  let ?Es = "[env_b_down, env_ab, env_not_json]"
  let ?m = "[KStr ''x'' \<mapsto> JInt 2, KStr ''y'' \<mapsto> JInt 3]"
  have run: "calls ?Es initial_cache =
      [\<lparr>returned = Inl TransportError, cache = None,
        io = [Get_repos, Urlopen ''A'', Read ''A'', Urlopen ''B'']\<rparr>,
       \<lparr>returned = Inr ?m, cache = Some ?m,
        io = [Get_repos, Urlopen ''A'', Read ''A'', Urlopen ''B'', Read ''B'', Store]\<rparr>,
       \<lparr>returned = Inr ?m, cache = Some ?m, io = []\<rparr>]"
    by (simp add: initial_cache_def load_env_b_down load_env_ab load_hit)
  from populated_once [of ?Es] obtain fs ss where split: "calls ?Es initial_cache = fs @ ss"
    and failed: "\<forall>r\<in>set fs. (\<exists>e. returned r = Inl e) \<and> cache r = None \<and> Store \<notin> set (io r)"
    and hits: "ss = [] \<or> (\<exists>d evs. Store \<notin> set evs
           \<and> ss = \<lparr>returned = Inr d, cache = Some d, io = evs @ [Store]\<rparr>
                  # replicate (length ss - 1) \<lparr>returned = Inr d, cache = Some d, io = []\<rparr>)"
    by blast
  have some_failed: "fs \<noteq> []"
  proof
    assume "fs = []"
    with split run hits show False by auto
  qed
  have some_hit: "ss \<noteq> []"
  proof
    assume "ss = []"
    with split run failed show False by auto
  qed
  have caches: "map cache (calls ?Es initial_cache) = [None, Some ?m, Some ?m]"
    unfolding run by simp
  from split some_failed some_hit failed hits caches show ?thesis
    by blast
qed

text \<open>
  C7. A call with the cache unpopulated that returns has requested every URL of the list
  once, in list order, and has read each response before the next request. A call that
  raises has done so for the URLs before some position, has requested the URL at that
  position and nothing after it. When the GET or the decoding of the URL at position \<open>i\<close>
  fails, at most the URLs up to position \<open>i\<close> are requested. In every case the URLs
  requested are the first ones of the list.
\<close>

theorem one_get_per_url:
  "(\<forall>d. returned (load_repo_data E None) = Inr d \<longrightarrow>
      io (load_repo_data E None) = Get_repos # fetched (get_repos E) @ [Store])
   \<and> (\<forall>e. returned (load_repo_data E None) = Inl e \<longrightarrow>
      (\<exists>i<length (get_repos E).
         io (load_repo_data E None)
           = Get_repos # fetched (take i (get_repos E))
             @ Urlopen (get_repos E ! i)
               # (if urlopen E (get_repos E ! i) = None then [] else [Read (get_repos E ! i)])))
   \<and> (\<forall>i<length (get_repos E).
        get_fails E (get_repos E ! i) \<or> parse_fails E (get_repos E ! i) \<longrightarrow>
        length (requests (io (load_repo_data E None))) \<le> Suc i)
   \<and> (\<exists>n\<le>length (get_repos E).
        requests (io (load_repo_data E None)) = take n (get_repos E))"
proof (intro conjI allI impI)
  fix d
  assume "returned (load_repo_data E None) = Inr d"
  then have "fst (for_urls E (get_repos E) Map.empty) = Inr d"
    by (simp add: load_returned)
  then show "io (load_repo_data E None) = Get_repos # fetched (get_repos E) @ [Store]"
    by (simp add: load_miss_ok)
next
  fix e
  assume "returned (load_repo_data E None) = Inl e"
  then have err: "fst (for_urls E (get_repos E) Map.empty) = Inl e"
    by (simp add: load_returned)
  from for_urls_stops [OF err] obtain i acc where i: "i < length (get_repos E)"
    and tr: "snd (for_urls E (get_repos E) Map.empty)
      = fetched (take i (get_repos E)) @ snd (fetch_merge E acc (get_repos E ! i))"
    by blast
  have "io (load_repo_data E None)
           = Get_repos # fetched (take i (get_repos E))
             @ Urlopen (get_repos E ! i)
               # (if urlopen E (get_repos E ! i) = None then [] else [Read (get_repos E ! i)])"
    by (simp add: load_miss_err [OF err] tr fetch_merge_io)
  with i show "\<exists>i<length (get_repos E).
         io (load_repo_data E None)
           = Get_repos # fetched (take i (get_repos E))
             @ Urlopen (get_repos E ! i)
               # (if urlopen E (get_repos E ! i) = None then [] else [Read (get_repos E ! i)])"
    by blast
next
  fix i
  assume "i < length (get_repos E)"
    and "get_fails E (get_repos E ! i) \<or> parse_fails E (get_repos E ! i)"
  from for_urls_halts_by [OF this, of Map.empty]
  show "length (requests (io (load_repo_data E None))) \<le> Suc i"
    by (simp add: load_io requests_append split: sum.splits)
next
  from for_urls_requests [of "get_repos E" E Map.empty]
  show "\<exists>n\<le>length (get_repos E).
        requests (io (load_repo_data E None)) = take n (get_repos E)"
    by (simp add: load_io requests_append split: sum.splits)
qed

theorem one_get_per_url_witness:
  "returned (load_repo_data env_ab None) = Inr [KStr ''x'' \<mapsto> JInt 2, KStr ''y'' \<mapsto> JInt 3]
   \<and> io (load_repo_data env_ab None)
       = [Get_repos, Urlopen ''A'', Read ''A'', Urlopen ''B'', Read ''B'', Store]
   \<and> returned (load_repo_data env_not_json None) = Inl ParseError
   \<and> (\<exists>i<length (get_repos env_not_json).
         io (load_repo_data env_not_json None)
           = Get_repos # fetched (take i (get_repos env_not_json))
             @ Urlopen (get_repos env_not_json ! i)
               # (if urlopen env_not_json (get_repos env_not_json ! i) = None then []
                  else [Read (get_repos env_not_json ! i)]))
   \<and> 1 < length (get_repos env_b_down) \<and> get_fails env_b_down (get_repos env_b_down ! 1)
   \<and> length (requests (io (load_repo_data env_b_down None))) \<le> Suc 1"
proof -
  have ok: "returned (load_repo_data env_ab None)
      = Inr [KStr ''x'' \<mapsto> JInt 2, KStr ''y'' \<mapsto> JInt 3]"
    by (simp add: load_env_ab)
  with one_get_per_url [of env_ab]
  have "io (load_repo_data env_ab None) = Get_repos # fetched (get_repos env_ab) @ [Store]"
    by blast
  then have ok_io: "io (load_repo_data env_ab None)
      = [Get_repos, Urlopen ''A'', Read ''A'', Urlopen ''B'', Read ''B'', Store]"
    by (simp add: env_ab_def serving_def fetched_def)
  have bad: "returned (load_repo_data env_not_json None) = Inl ParseError"
    by (simp add: load_env_not_json)
  with one_get_per_url [of env_not_json]
  have bad_io: "\<exists>i<length (get_repos env_not_json).
         io (load_repo_data env_not_json None)
           = Get_repos # fetched (take i (get_repos env_not_json))
             @ Urlopen (get_repos env_not_json ! i)
               # (if urlopen env_not_json (get_repos env_not_json ! i) = None then []
                  else [Read (get_repos env_not_json ! i)])"
    by blast
  have down: "1 < length (get_repos env_b_down)" "get_fails env_b_down (get_repos env_b_down ! 1)"
    by (simp_all add: env_b_down_def sample_defs)
  with one_get_per_url [of env_b_down]
  have halted: "length (requests (io (load_repo_data env_b_down None))) \<le> Suc 1"
    by blast
  from ok ok_io bad bad_io down halted show ?thesis
    by blast
qed

text \<open>
  C8, as stated, fails: the call on \<open>A\<close> and \<open>B\<close> reads the response of \<open>A\<close> and never
  closes it, and so does the call that raises ParseError on the body \<open>{not json\<close>.
\<close>

theorem response_left_open:
  "Read ''A'' \<in> set (io (load_repo_data env_ab None))
   \<and> Close ''A'' \<notin> set (io (load_repo_data env_ab None))
   \<and> returned (load_repo_data env_not_json None) = Inl ParseError
   \<and> Read ''A'' \<in> set (io (load_repo_data env_not_json None))
   \<and> Close ''A'' \<notin> set (io (load_repo_data env_not_json None))"
  by (simp add: load_env_ab load_env_not_json)

text \<open>
  C8, amended. \<open>load_repo_data\<close> never closes a response: on success and on failure
  alike, all that a call does is read the configuration, open the URLs of the list,
  read the responses and write the cache. Releasing the responses is left to the
  runtime.
\<close>

theorem never_closes:
  "Close u \<notin> set (io (load_repo_data E c))
   \<and> set (io (load_repo_data E c))
       \<subseteq> {Get_repos, Store} \<union> Urlopen ` set (get_repos E) \<union> Read ` set (get_repos E)"
proof (cases c)
  case (Some d)
  then show ?thesis by (simp add: load_hit)
next
  case None
  have "set (io (load_repo_data E None))
       \<subseteq> {Get_repos, Store} \<union> Urlopen ` set (get_repos E) \<union> Read ` set (get_repos E)"
    using for_urls_events [of E "get_repos E" Map.empty]
    by (auto simp: load_io split: sum.splits)
  then show ?thesis unfolding None by auto
qed

text \<open>
  C10. Two calls with the cache unpopulated, in environments that give the same URL list
  and the same response for every URL of the list, decoded by the same decoder, have
  the same outcome: the same mapping returned or the same exception raised, the same
  cache and the same effects. What the environments do for other URLs is of no
  consequence.
\<close>

theorem same_inputs_same_result:
  assumes urls: "get_repos E1 = get_repos E2"
      and answers: "\<forall>u\<in>set (get_repos E1). urlopen E1 u = urlopen E2 u"
      and decoder: "json_loads E1 = json_loads E2"
  shows "load_repo_data E1 None = load_repo_data E2 None"
proof -
  have "for_urls E1 (get_repos E1) Map.empty = for_urls E2 (get_repos E1) Map.empty"
    using decoder answers by (rule for_urls_agree)
  then have "for_urls E1 (get_repos E1) Map.empty = for_urls E2 (get_repos E2) Map.empty"
    by (simp only: urls)
  then show ?thesis
    unfolding load_repo_data_def urls by simp
qed

theorem same_inputs_same_result_witness:
  "get_repos env_ab = get_repos env_abc
   \<and> urlopen env_ab ''A'' = urlopen env_abc ''A''
   \<and> urlopen env_ab ''B'' = urlopen env_abc ''B''
   \<and> json_loads env_ab = json_loads env_abc
   \<and> urlopen env_ab ''C'' \<noteq> urlopen env_abc ''C''
   \<and> returned (load_repo_data env_abc None)
       = Inr [KStr ''x'' \<mapsto> JInt 2, KStr ''y'' \<mapsto> JInt 3]"
proof -
  have urls: "get_repos env_ab = get_repos env_abc"
    by (simp add: env_ab_def env_abc_def serving_def)
  have answers: "\<forall>u\<in>set (get_repos env_ab). urlopen env_ab u = urlopen env_abc u"
    by (simp add: env_ab_def env_abc_def serving_def)
  have decoder: "json_loads env_ab = json_loads env_abc"
    by (simp add: env_ab_def env_abc_def serving_def)
  have other: "urlopen env_ab ''C'' \<noteq> urlopen env_abc ''C''"
    by (simp add: env_ab_def env_abc_def serving_def)
  have again: "load_repo_data env_abc None = load_repo_data env_ab None"
    using urls answers decoder by (rule same_inputs_same_result [symmetric])
  have same: "returned (load_repo_data env_abc None)
      = Inr [KStr ''x'' \<mapsto> JInt 2, KStr ''y'' \<mapsto> JInt 3]"
    unfolding again load_env_ab by simp
  have listed: "urlopen env_ab ''A'' = urlopen env_abc ''A''"
    "urlopen env_ab ''B'' = urlopen env_abc ''B''"
    by (simp_all add: env_ab_def env_abc_def serving_def)
  show ?thesis
    by (intro conjI urls listed decoder other same)
qed

text \<open>
  C9. When the URLs before \<open>u\<close> have been fetched and merged and the body of \<open>u\<close> decodes
  to a value that is not an object, \<open>json.loads\<close> has succeeded and \<open>dict.update\<close> takes
  the value through the sequence protocol. If \<open>dict.update\<close> raises, the exception is a
  TypeError or a ValueError, neither TransportError nor ParseError; the call raises it
  and the cache stays unpopulated. If it does not raise, the loop goes on. A number
  makes the call raise TypeError, a string that is not empty ValueError.
\<close>

theorem non_object_body:
  assumes urls: "get_repos E = pre @ u # post"
      and merged: "fst (for_urls E pre Map.empty) = Inr acc"
      and answer: "urlopen E u = Some resp" "read resp = Some body"
      and decoded: "json_loads E body = Some data"
      and non_object: "\<forall>kvs. data \<noteq> JObj kvs"
  shows "dict_update acc data
           = (case as_sequence data of
                None \<Rightarrow> Inl TypeError
              | Some items \<Rightarrow> merge_from_seq2 acc items)
       \<and> (case dict_update acc data of
            Inl e \<Rightarrow>
              (e = TypeError \<or> e = ValueError)
              \<and> returned (load_repo_data E None) = Inl e
              \<and> cache (load_repo_data E None) = None
          | Inr acc' \<Rightarrow> fst (for_urls E (pre @ [u]) Map.empty) = Inr acc')
       \<and> (data = JInt n \<or> data = JFloat x \<longrightarrow>
            returned (load_repo_data E None) = Inl TypeError)
       \<and> (data = JStr (ch # s) \<longrightarrow> returned (load_repo_data E None) = Inl ValueError)"
proof -
  have step: "fetch_merge E acc u = (dict_update acc data, [Urlopen u, Read u])"
    using answer decoded by (rule fetch_merge_decoded)
  have protocol: "dict_update acc data
           = (case as_sequence data of
                None \<Rightarrow> Inl TypeError
              | Some items \<Rightarrow> merge_from_seq2 acc items)"
    using non_object by (cases data) simp_all
  have raised: "returned (load_repo_data E None) = Inl e \<and> cache (load_repo_data E None) = None"
    if "dict_update acc data = Inl e" for e
  proof -
    from that step have "fst (fetch_merge E acc u) = Inl e"
      by simp
    then have "fst (for_urls E (get_repos E) Map.empty) = Inl e"
      using step that
      by (simp add: urls for_urls_append_ok [OF merged] for_urls_Cons_err)
    then show ?thesis
      by (simp add: load_miss_err)
  qed
  have continued: "fst (for_urls E (pre @ [u]) Map.empty) = Inr acc'"
    if "dict_update acc data = Inr acc'" for acc'
  proof -
    from that step have "fst (fetch_merge E acc u) = Inr acc'"
      by simp
    then show ?thesis
      by (simp add: for_urls_append_ok [OF merged] for_urls_Cons_ok)
  qed
  have either: "case dict_update acc data of
            Inl e \<Rightarrow>
              (e = TypeError \<or> e = ValueError)
              \<and> returned (load_repo_data E None) = Inl e
              \<and> cache (load_repo_data E None) = None
          | Inr acc' \<Rightarrow> fst (for_urls E (pre @ [u]) Map.empty) = Inr acc'"
    using raised continued dict_update_error [of acc data]
    by (cases "dict_update acc data") simp_all
  have number: "data = JInt n \<or> data = JFloat x \<longrightarrow>
      returned (load_repo_data E None) = Inl TypeError"
    using raised [of TypeError] by auto
  have characters: "data = JStr (ch # s) \<longrightarrow> returned (load_repo_data E None) = Inl ValueError"
    using raised [of ValueError] by auto
  show ?thesis
    by (intro conjI protocol either number characters)
qed

theorem non_object_body_witness:
  \<open>get_repos env_number = [''A''] @ ''B'' # []
   \<and> fst (for_urls env_number [''A''] Map.empty) = Inr [KStr ''x'' \<mapsto> JInt 1]
   \<and> urlopen env_number ''B'' = Some (Response (Some ''5''))
   \<and> read (Response (Some ''5'')) = Some ''5''
   \<and> json_loads env_number ''5'' = Some (JInt 5)
   \<and> (\<forall>kvs. JInt 5 \<noteq> JObj kvs)
   \<and> dict_update [KStr ''x'' \<mapsto> JInt 1] (JInt 5) = Inl TypeError
   \<and> returned (load_repo_data env_number None) = Inl TypeError
   \<and> cache (load_repo_data env_number None) = None
   \<and> json_loads env_string ''"ab"'' = Some (JStr ''ab'')
   \<and> returned (load_repo_data env_string None) = Inl ValueError\<close>
proof -
  have urls: "get_repos env_number = [''A''] @ ''B'' # []"
    by (simp add: env_number_def serving_def)
  have merged: "fst (for_urls env_number [''A''] Map.empty) = Inr [KStr ''x'' \<mapsto> JInt 1]"
    by (simp add: env_number_def sample_defs)
  have answer: "urlopen env_number ''B'' = Some (Response (Some ''5''))"
    "read (Response (Some ''5'')) = Some ''5''"
    by (simp_all add: env_number_def serving_def)
  have decoded: "json_loads env_number ''5'' = Some (JInt 5)"
    by (simp add: env_number_def serving_def sample_loads_def)
  have non_object: "\<forall>kvs. JInt 5 \<noteq> JObj kvs"
    by simp
  have update: "dict_update [KStr ''x'' \<mapsto> JInt 1] (JInt 5) = Inl TypeError"
    by simp
  from non_object_body [OF urls merged answer decoded non_object] update
  have raised: "returned (load_repo_data env_number None) = Inl TypeError"
    "cache (load_repo_data env_number None) = None"
    by simp_all
  have urls': "get_repos env_string = [] @ ''A'' # []"
    by (simp add: env_string_def serving_def)
  have merged': "fst (for_urls env_string [] Map.empty) = Inr Map.empty"
    by simp
  have answer': \<open>urlopen env_string ''A'' = Some (Response (Some ''"ab"''))\<close>
    \<open>read (Response (Some ''"ab"'')) = Some ''"ab"''\<close>
    by (simp_all add: env_string_def serving_def)
  have decoded': \<open>json_loads env_string ''"ab"'' = Some (JStr ''ab'')\<close>
    by (simp add: env_string_def serving_def sample_loads_def)
  have non_object': "\<forall>kvs. JStr ''ab'' \<noteq> JObj kvs"
    by simp
  from non_object_body [OF urls' merged' answer' decoded' non_object']
  have raised': "returned (load_repo_data env_string None) = Inl ValueError"
    by simp
  show ?thesis
    by (intro conjI urls merged answer decoded non_object update raised decoded' raised')
qed

end
